theory Spec2Isabelle
  imports Main "HOL-Library.Word"
begin

section \<open>The machine-level simulation driver (ptlsim/sim/machine.cpp)\<close>

text \<open>
  A shallow embedding of \<^verbatim>\<open>BaseMachine\<close> and of the builders that populate it.
  The driver calls into collaborators whose code lives elsewhere (cores, the memory
  hierarchy, the statistics writer, the host's threads). Each such call is recorded as an
  \<open>event\<close> appended to the \<open>trace\<close> of the state, in the order the driver makes it;
  what a core answers is taken from a record of operations on an opaque core state.
  Text written to the log file and the rotation of the log file are not modelled.
\<close>

subsection \<open>Events\<close>

datatype component = CoreObj nat | ControllerObj nat | InterconnectObj nat | HierarchyObj

datatype event =
    New component                \<comment> \<open>an object is constructed and handed to the machine\<close>
  | Delete component             \<comment> \<open>\<^verbatim>\<open>delete\<close> of an owned object\<close>
  | UpdateMemoryHierarchyPtr nat \<comment> \<open>\<^verbatim>\<open>cores[i]->update_memory_hierarchy_ptr()\<close>\<close>
  | CoreReset nat                \<comment> \<open>\<^verbatim>\<open>cores[i]->reset()\<close>\<close>
  | CheckCtxChanges nat          \<comment> \<open>\<^verbatim>\<open>cores[i]->check_ctx_changes()\<close>\<close>
  | UpdateProgress               \<comment> \<open>\<^verbatim>\<open>update_progress()\<close>\<close>
  | DumpHeader                   \<comment> \<open>\<^verbatim>\<open>StatsBuilder::get().dump_header\<close>\<close>
  | DumpPeriodic                 \<comment> \<open>\<^verbatim>\<open>StatsBuilder::get().dump_periodic\<close>\<close>
  | Clock                        \<comment> \<open>\<^verbatim>\<open>memoryHierarchyPtr->clock()\<close>\<close>
  | RunCycle nat bool            \<comment> \<open>\<^verbatim>\<open>runcycle()\<close> of the core at this index, and its answer\<close>
  | PthreadCreate nat nat        \<comment> \<open>worker number (the CPU it is pinned to) and its start id\<close>
  | PthreadKill nat              \<comment> \<open>\<^verbatim>\<open>pthread_kill(*pthreads[i], 9)\<close>\<close>
  | RemoveMachine                \<comment> \<open>\<^verbatim>\<open>removemachine(machine_name, this)\<close>\<close>

datatype fault =
    AssertFailed        \<comment> \<open>\<^verbatim>\<open>assert(0)\<close>, or an assertion on a missing registry entry\<close>
  | NullDereference     \<comment> \<open>a call through a null pointer\<close>
  | DivisionByZero      \<comment> \<open>integer division by a zero \<^verbatim>\<open>cores_per_pthread\<close>\<close>
  | DanglingCore        \<comment> \<open>a worker's copy of a core pointer outlived the core\<close>

subsection \<open>Configuration and machine state\<close>

text \<open>
  Modelled from the spec: the declarations of \<^verbatim>\<open>PTLsimConfig\<close> and of the simulator's
  globals, which are outside the sources. The fields are those that machine.cpp reads or
  writes. \<open>cores_per_pthread\<close> is an integer ("int, positive"), counts of cores and
  workers are natural numbers, and the cycle and instruction counters are ptlsim's
  unsigned 64-bit \<^verbatim>\<open>W64\<close>. The functions \<^verbatim>\<open>init\<close> and \<^verbatim>\<open>run\<close> take a reference named
  \<open>config\<close> while \<^verbatim>\<open>setup_threads\<close> and \<^verbatim>\<open>run_threaded\<close> use the global of that
  name; the simulator passes the global, so there is one configuration object here.
\<close>

record config =
  machine_config :: string
  cache_config_type :: string
  threaded_simulation :: bool
  cores_per_pthread :: nat
  start_log_at_iteration :: "64 word"
  log_user_only :: bool
  wait_all_finished :: bool
  stop_at_user_insns :: "64 word"
  dump_state_now :: bool

datatype memory_hierarchy = MemoryHierarchy

record controller =
  ctl_coreid :: nat
  ctl_type :: nat
  ctl_name :: string

record interconnect =
  int_name :: string
  registered :: "(string \<times> nat) list"   \<comment> \<open>controllers registered on it, with the port type\<close>

text \<open>A worker thread: the start id it was created with and its local \<^verbatim>\<open>mycores\<close>,
  held as indices into \<open>cores\<close> (the pointers it copies alias the machine's cores).\<close>

record worker =
  start_id :: nat
  mycores :: "nat list"

record 'c machine =
  machine_name :: string
  cores :: "'c list"
  controllers :: "controller list"
  interconnects :: "interconnect list"
  controller_hash :: "string \<rightharpoonup> nat"          \<comment> \<open>name to index into \<open>controllers\<close>\<close>
  memoryHierarchyPtr :: "memory_hierarchy option"
  context_used :: "nat set"
  context_counter :: nat
  coreid_counter :: nat
  first_run :: bool
  pthreads :: "worker list"
  runcycle_barrier :: "nat option"                   \<comment> \<open>the barrier's count, once allocated\<close>
  exit_process_barrier :: "nat option"
  exit_requested :: bool
  bool_options :: "string \<rightharpoonup> (string \<rightharpoonup> bool)"
  int_options :: "string \<rightharpoonup> (string \<rightharpoonup> 32 word)"
  str_options :: "string \<rightharpoonup> (string \<rightharpoonup> string)"
  \<comment> \<open>globals of the simulator that the driver reads and writes\<close>
  config :: config
  stopped :: bool
  logenable :: bool
  time_stats_file :: bool                            \<comment> \<open>is the pointer non-null\<close>
  sim_cycle :: "64 word"
  iterations :: "64 word"
  total_user_insns_committed :: "64 word"
  summary_cycles :: "64 word"
  ret_qemu_env :: "nat option"                       \<comment> \<open>index of the context it points to\<close>
  trace :: "event list"

definition emit :: "event \<Rightarrow> 'c machine \<Rightarrow> 'c machine" where
  "emit e m = m\<lparr>trace := trace m @ [e]\<rparr>"

definition emits :: "event list \<Rightarrow> 'c machine \<Rightarrow> 'c machine" where
  "emits es m = m\<lparr>trace := trace m @ es\<rparr>"

subsection \<open>Destructor and reset (lines 39 to 65)\<close>

text \<open>Line 42 sends signal 9 to the first worker. SIGKILL is not delivered to one
  thread: it ends the process, so with a worker present the destructor gets no further
  (no later \<^verbatim>\<open>pthread_kill\<close>, no \<^verbatim>\<open>removemachine\<close>). Without workers the loop is
  empty and line 45 runs.\<close>

datatype 'm ended = Returns 'm | ProcessKilled 'm

definition destructor :: "'c machine \<Rightarrow> 'c machine ended" where
  "destructor m =
     (case pthreads m of
        [] \<Rightarrow> Returns (emit RemoveMachine m)
      | th # rest \<Rightarrow> ProcessKilled (emit (PthreadKill 0) m))"

definition reset :: "'c machine \<Rightarrow> 'c machine" where
  "reset m =
     (let m1 = m\<lparr>context_used := {}, context_counter := 0, coreid_counter := 0\<rparr>;
          m2 = emits (map (\<lambda>i. Delete (CoreObj i)) [0 ..< length (cores m1)]) m1;
          m3 = m2\<lparr>cores := []\<rparr>
      in case memoryHierarchyPtr m3 of
           Some h \<Rightarrow> (emit (Delete HierarchyObj) m3)\<lparr>memoryHierarchyPtr := None\<rparr>
         | None \<Rightarrow> m3)"

subsection \<open>Options store (lines 514 to 622)\<close>

text \<open>
  Modelled from the spec: \<^verbatim>\<open>Hashtable::get\<close> and \<^verbatim>\<open>Hashtable::add\<close>, whose
  header is not among the sources. A table is a map from the key's text to the value;
  \<open>get\<close> of an absent key is the null pointer (\<open>None\<close>), and \<open>add\<close> stores the
  value under the key, overwriting one already there ("Duplicate sets overwrite").
\<close>

definition hashtable_get :: "('k \<rightharpoonup> 'v) \<Rightarrow> 'k \<Rightarrow> 'v option" where
  "hashtable_get t k = t k"

definition hashtable_add :: "('k \<rightharpoonup> 'v) \<Rightarrow> 'k \<Rightarrow> 'v \<Rightarrow> ('k \<rightharpoonup> 'v)" where
  "hashtable_add t k v = t(k \<mapsto> v)"

text \<open>
  The outer table holds pointers to the inner tables, and \<^verbatim>\<open>(*b)->add(opt, value)\<close>
  changes the inner table in place: here the entry of the outer map is replaced by the
  changed inner map. When the inner table is created, \<open>b\<close> is the address of the local
  \<open>opts\<close>, read after its block has ended; it is taken to hold the new table still.
\<close>

definition add_option_bool :: "string \<Rightarrow> string \<Rightarrow> bool \<Rightarrow> 'c machine \<Rightarrow> 'c machine" where
  "add_option_bool name opt v m =
     (let (b, m1) = (case hashtable_get (bool_options m) name of
                       None \<Rightarrow> (Map.empty,
                                m\<lparr>bool_options := hashtable_add (bool_options m) name Map.empty\<rparr>)
                     | Some b \<Rightarrow> (b, m))
      in m1\<lparr>bool_options := (bool_options m1)(name \<mapsto> hashtable_add b opt v)\<rparr>)"

definition add_option_int :: "string \<Rightarrow> string \<Rightarrow> 32 word \<Rightarrow> 'c machine \<Rightarrow> 'c machine" where
  "add_option_int name opt v m =
     (let (b, m1) = (case hashtable_get (int_options m) name of
                       None \<Rightarrow> (Map.empty,
                                m\<lparr>int_options := hashtable_add (int_options m) name Map.empty\<rparr>)
                     | Some b \<Rightarrow> (b, m))
      in m1\<lparr>int_options := (int_options m1)(name \<mapsto> hashtable_add b opt v)\<rparr>)"

text \<open>The string overload stores a fresh \<^verbatim>\<open>stringbuf\<close> into which the value was
  streamed.\<close>

definition add_option_str :: "string \<Rightarrow> string \<Rightarrow> string \<Rightarrow> 'c machine \<Rightarrow> 'c machine" where
  "add_option_str name opt v m =
     (let (b, m1) = (case hashtable_get (str_options m) name of
                       None \<Rightarrow> (Map.empty,
                                m\<lparr>str_options := hashtable_add (str_options m) name Map.empty\<rparr>)
                     | Some b \<Rightarrow> (b, m));
          val = [] @ v
      in m1\<lparr>str_options := (str_options m1)(name \<mapsto> hashtable_add b opt val)\<rparr>)"

text \<open>
  \<^verbatim>\<open>get_option\<close> returns the flag and the contents of the reference parameter
  \<open>value\<close> after the call. The bool and int overloads assign to it; the string overload
  streams into it (\<^verbatim>\<open>value << **bt\<close>), which appends to what the buffer holds.
\<close>

definition get_option_bool :: "string \<Rightarrow> string \<Rightarrow> bool \<Rightarrow> 'c machine \<Rightarrow> bool \<times> bool" where
  "get_option_bool name opt_name out m =
     (case hashtable_get (bool_options m) name of
        None \<Rightarrow> (False, out)
      | Some b \<Rightarrow> (case hashtable_get b opt_name of
                    None \<Rightarrow> (False, out)
                  | Some bt \<Rightarrow> (True, bt)))"

definition get_option_int :: "string \<Rightarrow> string \<Rightarrow> 32 word \<Rightarrow> 'c machine \<Rightarrow> bool \<times> 32 word" where
  "get_option_int name opt_name out m =
     (case hashtable_get (int_options m) name of
        None \<Rightarrow> (False, out)
      | Some b \<Rightarrow> (case hashtable_get b opt_name of
                    None \<Rightarrow> (False, out)
                  | Some bt \<Rightarrow> (True, bt)))"

definition get_option_str :: "string \<Rightarrow> string \<Rightarrow> string \<Rightarrow> 'c machine \<Rightarrow> bool \<times> string" where
  "get_option_str name opt_name out m =
     (case hashtable_get (str_options m) name of
        None \<Rightarrow> (False, out)
      | Some b \<Rightarrow> (case hashtable_get b opt_name of
                    None \<Rightarrow> (False, out)
                  | Some bt \<Rightarrow> (True, out @ bt)))"

subsection \<open>Builders (lines 677 to 731)\<close>

text \<open>
  The registries are filled by the plugins before \<^verbatim>\<open>init\<close> runs. A machine generator
  is a function of the plugin that calls the builders one after the other; it is held
  here as the list of its calls. The entry \<^verbatim>\<open>"_default_"\<close> is registered with a null
  generator (line 24). A core factory gets the instance name and returns the core (what
  the core's constructor asks of the machine in turn, such as its core id, belongs to the
  plugin and is not followed); a controller is the record of the arguments its factory
  was given. \<open>stream_id\<close> is \<^verbatim>\<open>stringbuf << name << id\<close>.
\<close>

datatype build_cmd =
    AddNewCore string string           \<comment> \<open>\<^verbatim>\<open>add_new_core(machine, name, core_name)\<close>\<close>
  | AddNewCont nat string string nat   \<comment> \<open>\<^verbatim>\<open>add_new_cont(machine, coreid, name, cont_name, type)\<close>\<close>

record 'c registry =
  machineBuilders :: "string \<rightharpoonup> build_cmd list option"
  coreBuilders :: "string \<rightharpoonup> (string \<Rightarrow> 'c)"
  controllerBuilders :: "string set"
  stream_id :: "string \<Rightarrow> nat \<Rightarrow> string"

definition add_new_core ::
  "'c registry \<Rightarrow> string \<Rightarrow> string \<Rightarrow> 'c machine \<Rightarrow> fault + 'c machine" where
  "add_new_core r name core_name m =
     (let core_name_t = stream_id r name (coreid_counter m)
      in case coreBuilders r core_name of
           None \<Rightarrow> Inl AssertFailed
         | Some builder \<Rightarrow>
             (let core = builder core_name_t
              in Inr ((emit (New (CoreObj (length (cores m)))) m)
                        \<lparr>cores := cores m @ [core]\<rparr>)))"

definition add_new_cont ::
  "'c registry \<Rightarrow> nat \<Rightarrow> string \<Rightarrow> string \<Rightarrow> nat \<Rightarrow> 'c machine \<Rightarrow> fault + 'c machine" where
  "add_new_cont r coreid name cont_name type m =
     (let cont_name_t = stream_id r name coreid
      in if cont_name \<notin> controllerBuilders r then Inl AssertFailed
         else case memoryHierarchyPtr m of
           None \<Rightarrow> Inl NullDereference
         | Some h \<Rightarrow>
             (let cont = \<lparr>ctl_coreid = coreid, ctl_type = type, ctl_name = cont_name_t\<rparr>;
                  idx = length (controllers m)
              in Inr ((emit (New (ControllerObj idx)) m)
                        \<lparr>controllers := controllers m @ [cont],
                         controller_hash := hashtable_add (controller_hash m) cont_name_t idx\<rparr>)))"

fun apply_cmd :: "'c registry \<Rightarrow> build_cmd \<Rightarrow> 'c machine \<Rightarrow> fault + 'c machine" where
  "apply_cmd r (AddNewCore name core_name) m = add_new_core r name core_name m"
| "apply_cmd r (AddNewCont coreid name cont_name type) m =
     add_new_cont r coreid name cont_name type m"

subsection \<open>Worker threads (lines 98 to 174 and 355 to 368)\<close>

text \<open>What the host answers when a worker is created: \<^verbatim>\<open>pthread_attr_init\<close> and
  \<^verbatim>\<open>pthread_create\<close> may fail for worker \<open>i\<close>; a failed
  \<^verbatim>\<open>pthread_attr_setaffinity_np\<close> only logs a warning.\<close>

record host =
  attr_init_fails :: "nat \<Rightarrow> bool"
  create_fails :: "nat \<Rightarrow> bool"

text \<open>The start of \<^verbatim>\<open>run_cores_thread\<close>: the worker copies the cores
  \<open>start_coreid \<le> i < end_coreid\<close> into \<open>mycores\<close>.\<close>

definition run_cores_thread_start :: "nat \<Rightarrow> 'c machine \<Rightarrow> worker" where
  "run_cores_thread_start start m =
     (let start_coreid = start;
          end_coreid = min (start_coreid + cores_per_pthread (config m)) (length (cores m))
      in \<lparr>start_id = start, mycores = [start_coreid ..< end_coreid]\<rparr>)"

fun spawn_threads :: "host \<Rightarrow> nat list \<Rightarrow> 'c machine \<Rightarrow> fault + 'c machine" where
  "spawn_threads h [] m = Inr m"
| "spawn_threads h (i # rest) m =
     (if attr_init_fails h i then Inl AssertFailed
      else if create_fails h i then Inl AssertFailed
      else
        (let th_arg = i * cores_per_pthread (config m);
             th = run_cores_thread_start th_arg m
         in spawn_threads h rest
              ((emit (PthreadCreate i th_arg) m)\<lparr>pthreads := pthreads m @ [th]\<rparr>)))"

text \<open>
  \<open>logable1\<close> is the value of the macro \<^verbatim>\<open>logable(1)\<close> at the call (the macro is
  declared outside the sources). \<^verbatim>\<open>ceil(num_cores / config.cores_per_pthread)\<close>
  divides two integers before \<^verbatim>\<open>ceil\<close> sees the quotient.
\<close>

definition setup_threads :: "host \<Rightarrow> bool \<Rightarrow> 'c machine \<Rightarrow> fault + 'c machine" where
  "setup_threads h logable1 m =
     (if \<not> threaded_simulation (config m) then Inr m
      else
        (let num_cores = length (cores m)
         in if num_cores \<le> cores_per_pthread (config m) \<or> logable1
            then Inr (m\<lparr>config := (config m)\<lparr>threaded_simulation := False\<rparr>\<rparr>)
            else if cores_per_pthread (config m) = 0 then Inl DivisionByZero
            else
              (let num_threads = num_cores div cores_per_pthread (config m);
                   m1 = m\<lparr>runcycle_barrier := Some (num_threads + 1),
                          exit_process_barrier := Some (num_threads + 1)\<rparr>
               in spawn_threads h [0 ..< num_threads] m1)))"

subsection \<open>Initialisation (lines 72 to 96)\<close>

text \<open>\<^verbatim>\<open>init\<close> as a step relation: one step per statement of its body, and one per
  call the generator makes.\<close>

datatype init_pc =
    AtEntry                       \<comment> \<open>line 76 is next\<close>
  | AtNewHierarchy                \<comment> \<open>line 79 is next\<close>
  | AtCheckName                   \<comment> \<open>line 81 is next\<close>
  | AtSetupMachine                \<comment> \<open>line 87 is next\<close>
  | InGenerator "build_cmd list"  \<comment> \<open>inside the generator: the calls it has still to make\<close>
  | AtUpdatePtrs nat              \<comment> \<open>the loop of line 89, at this index\<close>
  | AtSetupThreads                \<comment> \<open>line 93 is next\<close>
  | Returned bool
  | Aborted fault

fun init_step ::
  "'c registry \<Rightarrow> host \<Rightarrow> bool \<Rightarrow> init_pc \<times> 'c machine \<Rightarrow> (init_pc \<times> 'c machine) option" where
  "init_step r h lg (AtEntry, m) =
     Some (AtNewHierarchy, m\<lparr>config := (config m)\<lparr>cache_config_type := ''auto''\<rparr>\<rparr>)"
| "init_step r h lg (AtNewHierarchy, m) =
     Some (AtCheckName, (emit (New HierarchyObj) m)\<lparr>memoryHierarchyPtr := Some MemoryHierarchy\<rparr>)"
| "init_step r h lg (AtCheckName, m) =
     (if machine_config (config m) = [] then Some (Aborted AssertFailed, m)
      else Some (AtSetupMachine, m))"
| "init_step r h lg (AtSetupMachine, m) =
     (case hashtable_get (machineBuilders r) (machine_config (config m)) of
        None \<Rightarrow> Some (Aborted AssertFailed, m)
      | Some None \<Rightarrow> Some (Aborted NullDereference, m)
      | Some (Some gen) \<Rightarrow> Some (InGenerator gen, m))"
| "init_step r h lg (InGenerator [], m) = Some (AtUpdatePtrs 0, m)"
| "init_step r h lg (InGenerator (c # cs), m) =
     (case apply_cmd r c m of
        Inl f \<Rightarrow> Some (Aborted f, m)
      | Inr m' \<Rightarrow> Some (InGenerator cs, m'))"
| "init_step r h lg (AtUpdatePtrs i, m) =
     (if i < length (cores m) then Some (AtUpdatePtrs (i + 1), emit (UpdateMemoryHierarchyPtr i) m)
      else Some (AtSetupThreads, m))"
| "init_step r h lg (AtSetupThreads, m) =
     (case setup_threads h lg m of
        Inl f \<Rightarrow> Some (Aborted f, m)
      | Inr m' \<Rightarrow> Some (Returned True, m'))"
| "init_step r h lg (Returned b, m) = None"
| "init_step r h lg (Aborted f, m) = None"

inductive init_reach ::
  "'c registry \<Rightarrow> host \<Rightarrow> bool \<Rightarrow> 'c machine \<Rightarrow> init_pc \<times> 'c machine \<Rightarrow> bool"
  for r :: "'c registry" and h :: host and lg :: bool and m0 :: "'c machine" where
  init_entry: "init_reach r h lg m0 (AtEntry, m0)"
| init_next: "init_reach r h lg m0 s \<Longrightarrow> init_step r h lg s = Some s' \<Longrightarrow> init_reach r h lg m0 s'"

text \<open>The cores or controllers sequences are being populated while the generator runs.\<close>

fun populating :: "init_pc \<Rightarrow> bool" where
  "populating (InGenerator cs) = True"
| "populating pc = False"

text \<open>\<^verbatim>\<open>init\<close> run to its end: the steps are iterated until none is left. Every step
  besides those of the two loops moves forward, so the fuel \<open>n\<close> bounds the generator's
  calls and the cores.\<close>

fun init_run ::
  "nat \<Rightarrow> 'c registry \<Rightarrow> host \<Rightarrow> bool \<Rightarrow> init_pc \<times> 'c machine \<Rightarrow> (init_pc \<times> 'c machine) option" where
  "init_run 0 r h lg s = None"
| "init_run (Suc n) r h lg s =
     (case init_step r h lg s of None \<Rightarrow> Some s | Some s' \<Rightarrow> init_run n r h lg s')"

subsection \<open>The cycle engine (lines 176 to 353)\<close>

text \<open>What the driver asks of a core. Cores are opaque: \<open>'c\<close> is the state of one core,
  and a call returns the core's next state with its answer.\<close>

record 'c core_ops =
  core_reset :: "'c \<Rightarrow> 'c"
  check_ctx_changes :: "'c \<Rightarrow> 'c"
  runcycle :: "'c \<Rightarrow> bool \<times> 'c"
  get_insns_committed :: "'c \<Rightarrow> 64 word"

text \<open>How one pass through a loop body ends: at the bottom of the body (with the value of
  the local \<open>exiting\<close>), at a \<^verbatim>\<open>break\<close>, at a \<^verbatim>\<open>return\<close> inside the body, or in a
  fault.\<close>

datatype 'm step_result = Continue bool 'm | Break bool 'm | Return bool 'm | Crash fault

text \<open>Lines 196 to 202, for one core.\<close>

definition prepare_core :: "'c core_ops \<Rightarrow> nat \<Rightarrow> 'c machine \<Rightarrow> 'c machine" where
  "prepare_core ops cur_core m =
     (let m1 = (if first_run m
                then (emit (CoreReset cur_core) m)
                       \<lparr>cores := (cores m)[cur_core := core_reset ops (cores m ! cur_core)]\<rparr>
                else m)
      in (emit (CheckCtxChanges cur_core) m1)
           \<lparr>cores := (cores m1)[cur_core := check_ctx_changes ops (cores m1 ! cur_core)]\<rparr>)"

text \<open>Lines 182 to 203: what \<^verbatim>\<open>run\<close> does before it chooses a loop.\<close>

definition run_prologue :: "'c core_ops \<Rightarrow> 'c machine \<Rightarrow> 'c machine" where
  "run_prologue ops m =
     (let m1 = m\<lparr>stopped := False\<rparr>;
          m2 = (if start_log_at_iteration (config m1) \<noteq> 0 \<and>
                   start_log_at_iteration (config m1) \<le> iterations m1 \<and>
                   \<not> log_user_only (config m1)
                then m1\<lparr>logenable := True\<rparr> else m1);
          m3 = fold (prepare_core ops) [0 ..< length (cores m2)] m2
      in m3\<lparr>first_run := False\<rparr>)"

text \<open>\<^verbatim>\<open>exiting |= core.runcycle()\<close> for the core at index \<open>i\<close>.\<close>

definition run_core :: "'c core_ops \<Rightarrow> nat \<Rightarrow> bool \<times> 'c machine \<Rightarrow> bool \<times> 'c machine" where
  "run_core ops i em =
     (let exiting = fst em; m = snd em;
          (vote, core) = runcycle ops (cores m ! i)
      in (exiting \<or> vote, (emit (RunCycle i vote) m)\<lparr>cores := (cores m)[i := core]\<rparr>))"

text \<open>Lines 224 to 229, and the same lines 295 to 300.\<close>

definition dump_stats :: "'c machine \<Rightarrow> 'c machine" where
  "dump_stats m =
     (let m1 = (if sim_cycle m = 0 \<and> time_stats_file m then emit DumpHeader m else m)
      in if sim_cycle m1 mod 10000 = 0 \<and> time_stats_file m1 then emit DumpPeriodic m1 else m1)"

text \<open>Lines 249 to 256, and the same lines 322 to 329.\<close>

definition collect_and_advance :: "'c core_ops \<Rightarrow> 'c machine \<Rightarrow> 'c machine" where
  "collect_and_advance ops m =
     (let m1 = m\<lparr>total_user_insns_committed :=
                   fold (\<lambda>core total. total + get_insns_committed ops core) (cores m) 0\<rparr>
      in m1\<lparr>summary_cycles := summary_cycles m1 + 1,
             sim_cycle := sim_cycle m1 + 1,
             iterations := iterations m1 + 1\<rparr>)"

text \<open>Lines 258 to 268, and the same lines 331 to 344.\<close>

definition check_stop :: "bool \<Rightarrow> 'c machine \<Rightarrow> 'c machine step_result" where
  "check_stop exiting m =
     (if wait_all_finished (config m) \<or>
         stop_at_user_insns (config m) \<le> total_user_insns_committed m
      then Break True m
      else if exiting
      then Break exiting (if ret_qemu_env m = None then m\<lparr>ret_qemu_env := Some 0\<rparr> else m)
      else Continue exiting m)"

text \<open>The body of the loop of \<^verbatim>\<open>run\<close> (lines 213 to 268).\<close>

definition run_cycle :: "'c core_ops \<Rightarrow> bool \<Rightarrow> 'c machine \<Rightarrow> 'c machine step_result" where
  "run_cycle ops exiting m =
     (let m1 = (if \<not> logenable m \<and>
                   start_log_at_iteration (config m) \<le> iterations m \<and>
                   \<not> log_user_only (config m)
                then m\<lparr>logenable := True\<rparr> else m);
          m2 = (if sim_cycle m1 mod 1000 = 0 then emit UpdateProgress m1 else m1);
          m3 = dump_stats m2
      in case memoryHierarchyPtr m3 of
           None \<Rightarrow> Crash NullDereference
         | Some h \<Rightarrow>
             (let m4 = emit Clock m3;
                  (exiting1, m5) = fold (run_core ops) [0 ..< length (cores m4)] (exiting, m4)
              in check_stop exiting1 (collect_and_advance ops m5)))"

text \<open>Lines 271 to 276, and the same lines 347 to 352.\<close>

definition epilogue :: "'c machine \<Rightarrow> 'c machine" where
  "epilogue m = m\<lparr>config := (config m)\<lparr>dump_state_now := False\<rparr>\<rparr>"

text \<open>The loops may run for ever (no core votes, no limit is reached): \<open>n\<close> bounds the
  number of passes, and \<open>None\<close> says that the bound was too small.\<close>

fun run_loop ::
  "nat \<Rightarrow> 'c core_ops \<Rightarrow> bool \<Rightarrow> 'c machine \<Rightarrow> (fault + bool \<times> 'c machine) option" where
  "run_loop 0 ops exiting m = None"
| "run_loop (Suc n) ops exiting m =
     (case run_cycle ops exiting m of
        Continue exiting1 m1 \<Rightarrow> run_loop n ops exiting1 m1
      | Break exiting1 m1 \<Rightarrow> Some (Inr (exiting1, epilogue m1))
      | Return b m1 \<Rightarrow> Some (Inr (b, m1))
      | Crash f \<Rightarrow> Some (Inl f))"

text \<open>One pass of a worker through the loop of \<^verbatim>\<open>run_cores_thread\<close> (lines 371 to
  396), between the two barriers.\<close>

definition run_worker :: "'c core_ops \<Rightarrow> worker \<Rightarrow> 'c machine \<Rightarrow> 'c machine" where
  "run_worker ops w m =
     (let (exiting, m1) = fold (run_core ops) (mycores w) (False, m)
      in if exiting then m1\<lparr>exit_requested := exiting\<rparr> else m1)"

text \<open>The body of the loop of \<^verbatim>\<open>run_threaded\<close> (lines 285 to 344). Between the two
  barrier waits every worker makes one pass; the workers run side by side in the source
  and one after the other here.\<close>

definition run_threaded_cycle :: "'c core_ops \<Rightarrow> 'c machine \<Rightarrow> 'c machine step_result" where
  "run_threaded_cycle ops m =
     (if start_log_at_iteration (config m) \<noteq> 0 \<and>
         start_log_at_iteration (config m) \<le> iterations m
      then Return False (m\<lparr>config := (config m)\<lparr>threaded_simulation := False\<rparr>\<rparr>)
      else
        (let m2 = (if sim_cycle m mod 10000 = 0 then emit UpdateProgress m else m);
             m3 = dump_stats m2
         in case memoryHierarchyPtr m3 of
              None \<Rightarrow> Crash NullDereference
            | Some h \<Rightarrow>
                (let m4 = emit Clock m3
                 in if runcycle_barrier m4 = None \<or> exit_process_barrier m4 = None
                    then Crash NullDereference
                    else if \<not> list_all (\<lambda>w. list_all (\<lambda>i. i < length (cores m4)) (mycores w))
                                 (pthreads m4)
                    then Crash DanglingCore
                    else
                      (let m5 = fold (run_worker ops) (pthreads m4) m4;
                           exiting = exit_requested m5;
                           m6 = m5\<lparr>exit_requested := False\<rparr>
                       in check_stop exiting (collect_and_advance ops m6)))))"

fun run_threaded ::
  "nat \<Rightarrow> 'c core_ops \<Rightarrow> 'c machine \<Rightarrow> (fault + bool \<times> 'c machine) option" where
  "run_threaded 0 ops m = None"
| "run_threaded (Suc n) ops m =
     (case run_threaded_cycle ops m of
        Continue exiting1 m1 \<Rightarrow> run_threaded n ops m1
      | Break exiting1 m1 \<Rightarrow> Some (Inr (exiting1, epilogue m1))
      | Return b m1 \<Rightarrow> Some (Inr (b, m1))
      | Crash f \<Rightarrow> Some (Inl f))"

definition run :: "nat \<Rightarrow> 'c core_ops \<Rightarrow> 'c machine \<Rightarrow> (fault + bool \<times> 'c machine) option" where
  "run n ops m =
     (let m1 = run_prologue ops m;
          exiting = False
      in if threaded_simulation (config m1) then run_threaded n ops m1
         else run_loop n ops exiting m1)"

subsection \<open>Reading the trace\<close>

text \<open>The events a call added: the trace only grows, so they are what follows the old
  trace.\<close>

definition new_events :: "'c machine \<Rightarrow> 'c machine \<Rightarrow> event list" where
  "new_events m m' = drop (length (trace m)) (trace m')"

fun is_vote :: "event \<Rightarrow> bool" where
  "is_vote (RunCycle i v) = v"
| "is_vote e = False"

text \<open>Some core's \<^verbatim>\<open>runcycle\<close> returned true.\<close>

definition voted :: "event list \<Rightarrow> bool" where
  "voted evs = list_ex is_vote evs"

fun is_runcycle :: "event \<Rightarrow> bool" where
  "is_runcycle (RunCycle i v) = True"
| "is_runcycle e = False"

fun is_core_prepare :: "event \<Rightarrow> bool" where
  "is_core_prepare (CoreReset i) = True"
| "is_core_prepare (CheckCtxChanges i) = True"
| "is_core_prepare e = False"

fun constructed :: "event list \<Rightarrow> component list" where
  "constructed [] = []"
| "constructed (New c # evs) = c # constructed evs"
| "constructed (e # evs) = constructed evs"

fun released :: "event list \<Rightarrow> component list" where
  "released [] = []"
| "released (Delete c # evs) = c # released evs"
| "released (e # evs) = released evs"


subsection \<open>Example machines\<close>

text \<open>The global \<^verbatim>\<open>coremodel("base")\<close> of line 624 as its constructor leaves it, in
  zeroed storage and with a zeroed configuration.\<close>

definition coremodel :: "'c machine" where
  "coremodel =
     \<lparr>machine_name = ''base'', cores = [], controllers = [], interconnects = [],
      controller_hash = Map.empty, memoryHierarchyPtr = None, context_used = {},
      context_counter = 0, coreid_counter = 0, first_run = False, pthreads = [],
      runcycle_barrier = None, exit_process_barrier = None, exit_requested = False,
      bool_options = Map.empty, int_options = Map.empty, str_options = Map.empty,
      config = \<lparr>machine_config = [], cache_config_type = [], threaded_simulation = False,
                cores_per_pthread = 0, start_log_at_iteration = 0, log_user_only = False,
                wait_all_finished = False, stop_at_user_insns = 0, dump_state_now = False\<rparr>,
      stopped = False, logenable = False, time_stats_file = False, sim_cycle = 0,
      iterations = 0, total_user_insns_committed = 0, summary_cycles = 0,
      ret_qemu_env = None, trace = []\<rparr>"

text \<open>A core that commits 100 instructions per cycle and votes to stop once it has
  committed 300; its state is the number of instructions committed.\<close>

definition ex_ops :: "nat core_ops" where
  "ex_ops = \<lparr>core_reset = (\<lambda>c. 0), check_ctx_changes = (\<lambda>c. c),
             runcycle = (\<lambda>c. (200 \<le> c, c + 100)),
             get_insns_committed = (\<lambda>c. of_nat c)\<rparr>"

definition ex_host :: host where
  "ex_host = \<lparr>attr_init_fails = (\<lambda>i. False), create_fails = (\<lambda>i. False)\<rparr>"

definition ex_gen :: "build_cmd list" where
  "ex_gen = [AddNewCore ''core_'' ''ooo'', AddNewCont 0 ''L1_'' ''wb_cache'' 0,
             AddNewCore ''core_'' ''ooo'']"

definition ex_registry :: "nat registry" where
  "ex_registry =
     \<lparr>machineBuilders = [''_default_'' \<mapsto> None, ''dual_core'' \<mapsto> Some ex_gen],
      coreBuilders = [''ooo'' \<mapsto> (\<lambda>name. 0)],
      controllerBuilders = {''wb_cache''},
      stream_id = (\<lambda>name id. name @ replicate id CHR ''I'')\<rparr>"

definition ex_start :: "nat machine" where
  "ex_start = coremodel\<lparr>config := (config (coremodel :: nat machine))
                 \<lparr>machine_config := ''dual_core'', stop_at_user_insns := 1000\<rparr>\<rparr>"

text \<open>The state of \<^verbatim>\<open>init\<close> on \<open>ex_start\<close> when the generator is about to make its
  first call.\<close>

definition ex_generating :: "nat machine" where
  "ex_generating =
     ex_start\<lparr>config := (config ex_start)\<lparr>cache_config_type := ''auto''\<rparr>,
              memoryHierarchyPtr := Some MemoryHierarchy, trace := [New HierarchyObj]\<rparr>"

text \<open>The machine \<^verbatim>\<open>init\<close> builds from \<open>ex_start\<close>.\<close>

definition ex_built :: "nat machine" where
  "ex_built =
     ex_generating\<lparr>cores := [0, 0],
       controllers := [\<lparr>ctl_coreid = 0, ctl_type = 0, ctl_name = ''L1_''\<rparr>],
       controller_hash := [''L1_'' \<mapsto> 0],
       trace := [New HierarchyObj, New (CoreObj 0), New (ControllerObj 0), New (CoreObj 1),
                 UpdateMemoryHierarchyPtr 0, UpdateMemoryHierarchyPtr 1]\<rparr>"

text \<open>Three cores, two per worker, threaded simulation requested.\<close>

definition ex_three :: "nat machine" where
  "ex_three = ex_built\<lparr>cores := [0, 0, 0],
                config := (config ex_built)\<lparr>threaded_simulation := True, cores_per_pthread := 2\<rparr>\<rparr>"

text \<open>Two cores, one per worker, threaded simulation requested; and the same machine with
  its workers, as \<^verbatim>\<open>setup_threads\<close> leaves it.\<close>

definition ex_two :: "nat machine" where
  "ex_two = ex_built\<lparr>config := (config ex_built)
              \<lparr>threaded_simulation := True, cores_per_pthread := 1\<rparr>\<rparr>"

definition ex_threaded :: "nat machine" where
  "ex_threaded =
     ex_two\<lparr>pthreads := [\<lparr>start_id = 0, mycores = [0]\<rparr>, \<lparr>start_id = 1, mycores = [1]\<rparr>],
            runcycle_barrier := Some 3, exit_process_barrier := Some 3,
            trace := trace ex_two @ [PthreadCreate 0 0, PthreadCreate 1 1]\<rparr>"

subsection \<open>The invariant of initialisation\<close>

text \<open>Before line 79 has run no core and no controller has been added; from then on the
  memory hierarchy is there.\<close>

fun init_inv :: "'c machine \<Rightarrow> init_pc \<times> 'c machine \<Rightarrow> bool" where
  "init_inv m0 (AtEntry, m) = (cores m = cores m0 \<and> controllers m = controllers m0)"
| "init_inv m0 (AtNewHierarchy, m) = (cores m = cores m0 \<and> controllers m = controllers m0)"
| "init_inv m0 (Aborted f, m) = True"
| "init_inv m0 (pc, m) = (memoryHierarchyPtr m = Some MemoryHierarchy)"

text \<open>Variants of the built machines: a core that is about to vote; a request to stop at
  the next cycle boundary; deferred logging whose threshold is reached; cycle 1000 in
  threaded mode; and a first run.\<close>

definition ex_voting :: "nat machine" where
  "ex_voting = ex_built\<lparr>cores := [200, 0]\<rparr>"

definition ex_waiting :: "nat machine" where
  "ex_waiting = ex_built\<lparr>config := (config ex_built)\<lparr>wait_all_finished := True\<rparr>\<rparr>"

definition ex_deferred :: "nat machine" where
  "ex_deferred = ex_threaded\<lparr>config := (config ex_threaded)\<lparr>start_log_at_iteration := 10\<rparr>,
                   sim_cycle := 10, iterations := 10\<rparr>"

definition ex_thousand :: "nat machine" where
  "ex_thousand = ex_threaded\<lparr>sim_cycle := 1000, iterations := 1000\<rparr>"

definition ex_first :: "nat machine" where
  "ex_first = ex_waiting\<lparr>first_run := True\<rparr>"

section \<open>Properties\<close>

subsection \<open>Traces\<close>

lemma trace_emit [simp]: "trace (emit e m) = trace m @ [e]"
  by (simp add: emit_def)

lemma trace_emits [simp]: "trace (emits es m) = trace m @ es"
  by (simp add: emits_def)

lemma new_events_append: "trace m' = trace m @ evs \<Longrightarrow> new_events m m' = evs"
  by (simp add: new_events_def)

lemma released_map_Delete [simp]: "released (map Delete cs) = cs"
  by (induction cs) simp_all

lemma released_append [simp]: "released (xs @ ys) = released xs @ released ys"
  by (induction xs rule: released.induct) simp_all

subsection \<open>Options store\<close>

text \<open>
  What the code does: a value stored with \<^verbatim>\<open>add_option\<close> is found by
  \<^verbatim>\<open>get_option\<close>, which returns true. For the bool and int kinds the reference
  parameter then holds the value; for the string kind it holds what it held before the
  call followed by the value.
\<close>

lemma option_round_trip:
  "get_option_bool name opt outb (add_option_bool name opt vb m) = (True, vb) \<and>
   get_option_int name opt outi (add_option_int name opt vi m) = (True, vi) \<and>
   get_option_str name opt outs (add_option_str name opt vs m) = (True, outs @ vs)"
  by (simp add: get_option_bool_def add_option_bool_def get_option_int_def add_option_int_def
      get_option_str_def add_option_str_def hashtable_get_def hashtable_add_def
      split: option.splits)

text \<open>
  C5 on the code: with the value \<open>''y''\<close> stored and a buffer that holds \<open>''x''\<close>, the
  string overload of \<^verbatim>\<open>get_option\<close> returns true and leaves \<open>''xy''\<close> in the buffer,
  not the stored \<open>''y''\<close> (line 616 streams into the buffer where lines 586 and 601
  assign); the bool and int overloads, called the same way, leave the stored value.
\<close>

theorem get_option_str_appends:
  "get_option_str ''core_0'' ''mode'' ''x''
     (add_option_str ''core_0'' ''mode'' ''y'' (coremodel :: nat machine)) = (True, ''xy'') \<and>
   ''xy'' \<noteq> ''y'' \<and>
   get_option_bool ''core_0'' ''mode'' False
     (add_option_bool ''core_0'' ''mode'' True (coremodel :: nat machine)) = (True, True) \<and>
   get_option_int ''core_0'' ''mode'' 7
     (add_option_int ''core_0'' ''mode'' 3 (coremodel :: nat machine)) = (True, 3)"
  by (simp add: get_option_str_def add_option_str_def get_option_bool_def add_option_bool_def
      get_option_int_def add_option_int_def hashtable_get_def hashtable_add_def coremodel_def)

subsection \<open>Reset and destruction\<close>

text \<open>
  C9, as the code has it: \<^verbatim>\<open>reset\<close> deletes every core, in the order of the cores
  sequence, empties that sequence, and then deletes the memory hierarchy when there is
  one; it leaves the controllers and the interconnects as they are. On destruction no
  owned component is released, whether the destructor returns (no workers) or the
  process ends at line 42.
\<close>

theorem reset_releases:
  "new_events m (reset m) =
     map (\<lambda>i. Delete (CoreObj i)) [0 ..< length (cores m)] @
     (case memoryHierarchyPtr m of None \<Rightarrow> [] | Some h \<Rightarrow> [Delete HierarchyObj]) \<and>
   cores (reset m) = [] \<and> memoryHierarchyPtr (reset m) = None \<and>
   controllers (reset m) = controllers m \<and> interconnects (reset m) = interconnects m \<and>
   (case destructor m of
      Returns m' \<Rightarrow>
        pthreads m = [] \<and> released (new_events m m') = [] \<and>
        cores m' = cores m \<and> controllers m' = controllers m \<and>
        interconnects m' = interconnects m \<and> memoryHierarchyPtr m' = memoryHierarchyPtr m
    | ProcessKilled m' \<Rightarrow>
        pthreads m \<noteq> [] \<and> released (new_events m m') = [] \<and>
        cores m' = cores m \<and> controllers m' = controllers m \<and>
        interconnects m' = interconnects m \<and> memoryHierarchyPtr m' = memoryHierarchyPtr m)"
  by (simp add: reset_def destructor_def new_events_def emit_def emits_def Let_def
      split: option.splits list.splits)

text \<open>
  C9 as stated fails on the machine \<open>ex_built\<close>, built as hierarchy, core 0, controller
  0, core 1: \<^verbatim>\<open>reset\<close> releases core 0, core 1 and the hierarchy, in that order, which
  is not the reverse of the construction order, and it keeps the controller; and the
  destructor returns with nothing released and both cores still owned.
\<close>

theorem reset_counterexample:
  "released (new_events ex_built (reset ex_built)) = [CoreObj 0, CoreObj 1, HierarchyObj] \<and>
   rev (constructed (trace ex_built)) = [CoreObj 1, ControllerObj 0, CoreObj 0, HierarchyObj] \<and>
   controllers (reset ex_built) = [\<lparr>ctl_coreid = 0, ctl_type = 0, ctl_name = ''L1_''\<rparr>] \<and>
   (case destructor ex_built of
      Returns m' \<Rightarrow> released (new_events ex_built m') = [] \<and> cores m' = [0, 0]
    | ProcessKilled m' \<Rightarrow> False)"
  by (simp add: reset_def destructor_def new_events_def emit_def emits_def Let_def ex_built_def
      ex_generating_def ex_start_def coremodel_def upt_rec)

subsection \<open>Initialisation\<close>

lemma spawn_threads_frame:
  "spawn_threads h js m = Inr m' \<Longrightarrow>
   memoryHierarchyPtr m' = memoryHierarchyPtr m \<and> config m' = config m \<and> cores m' = cores m"
  by (induction js arbitrary: m) (auto simp: emit_def Let_def split: if_splits)

lemma setup_threads_frame:
  "setup_threads h lg m = Inr m' \<Longrightarrow>
   memoryHierarchyPtr m' = memoryHierarchyPtr m \<and> cores m' = cores m"
  by (auto simp: setup_threads_def Let_def split: if_splits dest!: spawn_threads_frame)

lemma apply_cmd_hierarchy:
  "apply_cmd r c m = Inr m' \<Longrightarrow> memoryHierarchyPtr m' = memoryHierarchyPtr m"
  by (cases c)
    (auto simp: add_new_core_def add_new_cont_def emit_def Let_def
      split: option.splits if_splits)

lemma init_step_inv:
  assumes "init_inv m0 s" and "init_step r h lg s = Some s'"
  shows "init_inv m0 s'"
proof (cases s)
  case (Pair pc m)
  show ?thesis
  proof (cases pc)
    case (InGenerator cs)
    with Pair assms show ?thesis
      by (cases cs) (auto split: sum.splits dest: apply_cmd_hierarchy)
  next
    case AtSetupThreads
    with Pair assms show ?thesis
      by (auto split: sum.splits dest: setup_threads_frame)
  qed (use Pair assms in \<open>auto simp: emit_def hashtable_get_def split: option.splits if_splits\<close>)
qed

lemma init_reach_inv: "init_reach r h lg m0 s \<Longrightarrow> init_inv m0 s"
  by (induction rule: init_reach.induct) (auto intro: init_step_inv)

text \<open>The example machines are what \<^verbatim>\<open>init\<close> makes of \<open>ex_start\<close>: \<open>ex_generating\<close>
  when the generator is entered, \<open>ex_built\<close> when \<^verbatim>\<open>init\<close> returns.\<close>

lemma ex_generating_reachable:
  "init_reach ex_registry ex_host False ex_start (InGenerator ex_gen, ex_generating)"
proof -
  let ?a = "ex_start\<lparr>config := (config ex_start)\<lparr>cache_config_type := ''auto''\<rparr>\<rparr>"
  have 0: "init_reach ex_registry ex_host False ex_start (AtEntry, ex_start)"
    by (rule init_entry)
  have 1: "init_reach ex_registry ex_host False ex_start (AtNewHierarchy, ?a)"
    by (rule init_next [OF 0]) simp
  have 2: "init_reach ex_registry ex_host False ex_start (AtCheckName, ex_generating)"
    by (rule init_next [OF 1])
      (simp add: ex_generating_def ex_start_def coremodel_def emit_def)
  have 3: "init_reach ex_registry ex_host False ex_start (AtSetupMachine, ex_generating)"
    by (rule init_next [OF 2])
      (simp add: ex_generating_def ex_start_def coremodel_def)
  show ?thesis
    by (rule init_next [OF 3])
      (simp add: ex_generating_def ex_start_def coremodel_def ex_registry_def hashtable_get_def)
qed

lemma ex_built_init:
  "init_run 13 ex_registry ex_host False (AtEntry, ex_start) = Some (Returned True, ex_built)"
  by (simp add: eval_nat_numeral ex_built_def ex_generating_def ex_start_def coremodel_def
      ex_registry_def ex_gen_def ex_host_def hashtable_get_def hashtable_add_def
      add_new_core_def add_new_cont_def setup_threads_def emit_def Let_def)

text \<open>
  What the code does: in every state that \<^verbatim>\<open>init\<close> reaches while the generator is
  populating the machine, and in the state in which it returns, the memory hierarchy is
  there; and up to the construction of the hierarchy the cores and the controllers are
  those \<^verbatim>\<open>init\<close> found.
\<close>

lemma hierarchy_before_components:
  assumes "init_reach r h lg m0 (pc, m)"
  shows "(populating pc \<longrightarrow> memoryHierarchyPtr m = Some MemoryHierarchy) \<and>
         (pc = Returned b \<longrightarrow> memoryHierarchyPtr m = Some MemoryHierarchy) \<and>
         (pc = AtEntry \<or> pc = AtNewHierarchy \<longrightarrow>
            cores m = cores m0 \<and> controllers m = controllers m0)"
  using init_reach_inv [OF assms] by (cases pc) auto

text \<open>
  C1 on the code: \<^verbatim>\<open>init\<close> on \<open>ex_start\<close> reaches a state in which the generator has
  all its calls still to make, no core and no controller exists yet, and the memory
  hierarchy is already constructed (line 79 runs before line 87, against the comment of
  line 78); the machine \<^verbatim>\<open>init\<close> returns has two cores and a controller, all added
  after the hierarchy.
\<close>

theorem init_constructs_hierarchy_first:
  "init_reach ex_registry ex_host False ex_start (InGenerator ex_gen, ex_generating) \<and>
   populating (InGenerator ex_gen) \<and> ex_gen \<noteq> [] \<and>
   cores ex_generating = [] \<and> controllers ex_generating = [] \<and>
   memoryHierarchyPtr ex_generating \<noteq> None \<and>
   init_run 13 ex_registry ex_host False (AtEntry, ex_start) = Some (Returned True, ex_built) \<and>
   constructed (trace ex_built) = [HierarchyObj, CoreObj 0, ControllerObj 0, CoreObj 1]"
  using ex_generating_reachable ex_built_init
  by (simp add: ex_built_def ex_generating_def ex_start_def coremodel_def ex_gen_def)

subsection \<open>Choosing the mode, and the workers\<close>

lemma prepare_cores_config:
  "config (fold (prepare_core ops) js m) = config m"
  by (induction js arbitrary: m) (simp_all add: prepare_core_def emit_def Let_def)

lemma run_prologue_config: "config (run_prologue ops m) = config m"
  by (simp add: run_prologue_def Let_def prepare_cores_config)

lemma setup_threads_flag:
  assumes "setup_threads h lg m = Inr m'"
  shows "threaded_simulation (config m') \<longleftrightarrow>
         threaded_simulation (config m) \<and> cores_per_pthread (config m) < length (cores m) \<and> \<not> lg"
  using assms
  by (auto simp: setup_threads_def Let_def split: if_splits dest!: spawn_threads_frame)

lemma ex_two_setup: "setup_threads ex_host False ex_two = Inr ex_threaded"
  by (simp add: setup_threads_def Let_def ex_two_def ex_threaded_def ex_built_def
      ex_generating_def ex_start_def coremodel_def ex_host_def run_cores_thread_start_def
      emit_def upt_rec)

text \<open>
  C6: when \<^verbatim>\<open>setup_threads\<close> returns, the flag \<open>threaded_simulation\<close> is set if and
  only if it was set in the configuration, the number of cores exceeds
  \<open>cores_per_pthread\<close> and verbose logging (\<^verbatim>\<open>logable(1)\<close>, here \<open>lg\<close>) is off; and
  \<^verbatim>\<open>run\<close> then enters the threaded loop in exactly that case, the sequential loop
  otherwise. When one of the three conditions fails, \<^verbatim>\<open>setup_threads\<close> returns with
  the flag cleared.
\<close>

theorem threaded_mode_gate:
  "(setup_threads h lg m = Inr m' \<longrightarrow>
      (threaded_simulation (config m') \<longleftrightarrow>
         threaded_simulation (config m) \<and> cores_per_pthread (config m) < length (cores m) \<and>
         \<not> lg) \<and>
      run n ops m' =
        (if threaded_simulation (config m) \<and> cores_per_pthread (config m) < length (cores m) \<and>
            \<not> lg
         then run_threaded n ops (run_prologue ops m')
         else run_loop n ops False (run_prologue ops m'))) \<and>
   (\<not> (threaded_simulation (config m) \<and> cores_per_pthread (config m) < length (cores m) \<and>
        \<not> lg) \<longrightarrow>
      setup_threads h lg m = Inr (m\<lparr>config := (config m)\<lparr>threaded_simulation := False\<rparr>\<rparr>))"
proof (intro conjI impI)
  assume a: "setup_threads h lg m = Inr m'"
  show "threaded_simulation (config m') \<longleftrightarrow>
        threaded_simulation (config m) \<and> cores_per_pthread (config m) < length (cores m) \<and> \<not> lg"
    by (rule setup_threads_flag [OF a])
  then show "run n ops m' =
        (if threaded_simulation (config m) \<and> cores_per_pthread (config m) < length (cores m) \<and>
            \<not> lg
         then run_threaded n ops (run_prologue ops m')
         else run_loop n ops False (run_prologue ops m'))"
    by (simp add: run_def Let_def run_prologue_config)
next
  assume "\<not> (threaded_simulation (config m) \<and> cores_per_pthread (config m) < length (cores m) \<and>
        \<not> lg)"
  then show "setup_threads h lg m = Inr (m\<lparr>config := (config m)\<lparr>threaded_simulation := False\<rparr>\<rparr>)"
    by (auto simp: setup_threads_def Let_def)
qed

text \<open>C6 at work: two cores, one per worker, logging off: \<^verbatim>\<open>setup_threads\<close> returns
  with the flag set and \<^verbatim>\<open>run\<close> enters the threaded loop.\<close>

theorem threaded_mode_gate_witness:
  "setup_threads ex_host False ex_two = Inr ex_threaded \<and>
   threaded_simulation (config ex_threaded) \<and>
   run 1 ex_ops ex_threaded = run_threaded 1 ex_ops (run_prologue ex_ops ex_threaded)"
  using threaded_mode_gate [of ex_host False ex_two ex_threaded 1 ex_ops] ex_two_setup
  by (simp add: ex_two_def ex_built_def)

text \<open>
  C2 on the code: with three cores and two cores per worker, \<^verbatim>\<open>setup_threads\<close> creates
  one worker, which takes the cores 0 and 1. The claim asks for two workers (the ceiling
  of 3 / 2) and for core 2 to have a worker.
\<close>

theorem worker_count_floor:
  "(case setup_threads ex_host False ex_three of Inl f \<Rightarrow> [] | Inr m' \<Rightarrow> pthreads m') =
     [\<lparr>start_id = 0, mycores = [0, 1]\<rparr>] \<and>
   length (cores ex_three) = 3 \<and> cores_per_pthread (config ex_three) = 2"
  by (simp add: setup_threads_def Let_def ex_three_def ex_built_def
      ex_generating_def ex_start_def coremodel_def ex_host_def run_cores_thread_start_def
      emit_def upt_rec)

subsection \<open>One pass through a loop body\<close>

text \<open>What a pass of either loop does up to its stop check: it extends the trace by the
  events of the pass, leaves the configuration, \<open>first_run\<close>, \<open>ret_qemu_env\<close> and the
  number of cores alone, and hands the disjunction of the votes to \<open>check_stop\<close>.\<close>

lemma voted_simps [simp]:
  "voted [] = False"
  "voted (e # evs) = (is_vote e \<or> voted evs)"
  "voted (xs @ ys) = (voted xs \<or> voted ys)"
  by (auto simp: voted_def)

lemma runcycle_events:
  "list_all is_runcycle evs \<Longrightarrow>
   filter is_core_prepare evs = [] \<and> UpdateProgress \<notin> set evs"
proof (induction evs)
  case Nil
  show ?case by simp
next
  case (Cons e evs)
  then show ?case by (cases e) simp_all
qed

lemma fold_run_core:
  "fold (run_core ops) js (e, m) = (e', m') \<Longrightarrow>
   \<exists>evs cs. m' = m\<lparr>cores := cs, trace := trace m @ evs\<rparr> \<and> length cs = length (cores m) \<and>
     list_all is_runcycle evs \<and> (e' \<longleftrightarrow> e \<or> voted evs)"
proof (induction js arbitrary: e m)
  case Nil
  then have "m' = m\<lparr>cores := cores m, trace := trace m @ []\<rparr>" by simp
  with Nil show ?case by fastforce
next
  case (Cons j js)
  obtain v c where rc: "runcycle ops (cores m ! j) = (v, c)"
    by (cases "runcycle ops (cores m ! j)")
  let ?m1 = "(emit (RunCycle j v) m)\<lparr>cores := (cores m)[j := c]\<rparr>"
  have step: "run_core ops j (e, m) = (e \<or> v, ?m1)"
    using rc by (simp add: run_core_def)
  from Cons.prems have "fold (run_core ops) js (e \<or> v, ?m1) = (e', m')"
    by (simp add: step)
  from Cons.IH [OF this] obtain evs cs where
    a: "m' = ?m1\<lparr>cores := cs, trace := trace ?m1 @ evs\<rparr>" and
    b: "length cs = length (cores ?m1)" and c: "list_all is_runcycle evs" and
    d: "e' \<longleftrightarrow> (e \<or> v) \<or> voted evs"
    by blast
  from a have "m' = m\<lparr>cores := cs, trace := trace m @ (RunCycle j v # evs)\<rparr>"
    by (simp add: emit_def)
  moreover from b have "length cs = length (cores m)" by (simp add: emit_def)
  moreover from c have "list_all is_runcycle (RunCycle j v # evs)" by simp
  moreover from d have "e' \<longleftrightarrow> e \<or> voted (RunCycle j v # evs)" by auto
  ultimately show ?case by blast
qed

lemma run_cycle_crash:
  "memoryHierarchyPtr m = None \<Longrightarrow> run_cycle ops e m = Crash NullDereference"
  by (simp add: run_cycle_def Let_def dump_stats_def emit_def)

lemma run_cycle_shape:
  assumes "memoryHierarchyPtr m \<noteq> None"
  shows "\<exists>e1 m1 evs. run_cycle ops e m = check_stop e1 m1 \<and> trace m1 = trace m @ evs \<and>
           config m1 = config m \<and> first_run m1 = first_run m \<and>
           ret_qemu_env m1 = ret_qemu_env m \<and> exit_requested m1 = exit_requested m \<and>
           length (cores m1) = length (cores m) \<and>
           memoryHierarchyPtr m1 = memoryHierarchyPtr m \<and>
           total_user_insns_committed m1 =
             fold (\<lambda>core total. total + get_insns_committed ops core) (cores m1) 0 \<and>
           (e1 \<longleftrightarrow> e \<or> voted evs) \<and> filter is_core_prepare evs = [] \<and>
           (UpdateProgress \<in> set evs \<longleftrightarrow> sim_cycle m mod 1000 = 0)"
proof -
  define m3 where "m3 = dump_stats
     (let m1 = (if \<not> logenable m \<and> start_log_at_iteration (config m) \<le> iterations m \<and>
                   \<not> log_user_only (config m) then m\<lparr>logenable := True\<rparr> else m)
      in if sim_cycle m1 mod 1000 = 0 then emit UpdateProgress m1 else m1)"
  define pre where "pre = (if sim_cycle m mod 1000 = 0 then [UpdateProgress] else []) @
     (if sim_cycle m = 0 \<and> time_stats_file m then [DumpHeader] else []) @
     (if sim_cycle m mod 10000 = 0 \<and> time_stats_file m then [DumpPeriodic] else [])"
  define m4 where "m4 = emit Clock m3"
  have m3: "trace m3 = trace m @ pre" "config m3 = config m" "first_run m3 = first_run m"
    "ret_qemu_env m3 = ret_qemu_env m" "exit_requested m3 = exit_requested m"
    "cores m3 = cores m" "memoryHierarchyPtr m3 = memoryHierarchyPtr m"
    by (simp_all add: m3_def pre_def dump_stats_def emit_def Let_def)
  obtain e1 m5 where f: "fold (run_core ops) [0 ..< length (cores m4)] (e, m4) = (e1, m5)"
    by (cases "fold (run_core ops) [0 ..< length (cores m4)] (e, m4)")
  from fold_run_core [OF f] obtain evs cs where
    a: "m5 = m4\<lparr>cores := cs, trace := trace m4 @ evs\<rparr>" and
    b: "length cs = length (cores m4)" and c: "list_all is_runcycle evs" and
    d: "e1 \<longleftrightarrow> e \<or> voted evs"
    by blast
  from assms m3 obtain h where h: "memoryHierarchyPtr m3 = Some h" by auto
  have "run_cycle ops e m =
      (case memoryHierarchyPtr m3 of
         None \<Rightarrow> Crash NullDereference
       | Some h \<Rightarrow>
           (let (exiting1, m5) = fold (run_core ops) [0 ..< length (cores (emit Clock m3))]
                                   (e, emit Clock m3)
            in check_stop exiting1 (collect_and_advance ops m5)))"
    unfolding run_cycle_def m3_def Let_def by (rule refl)
  with h f have r: "run_cycle ops e m = check_stop e1 (collect_and_advance ops m5)"
    by (simp add: m4_def)
  define m6 where "m6 = collect_and_advance ops m5"
  have m6: "m6 = m3\<lparr>cores := cs, trace := trace m3 @ Clock # evs,
      total_user_insns_committed := fold (\<lambda>core total. total + get_insns_committed ops core) cs 0,
      summary_cycles := summary_cycles m3 + 1, sim_cycle := sim_cycle m3 + 1,
      iterations := iterations m3 + 1\<rparr>"
    by (simp add: m6_def a m4_def collect_and_advance_def emit_def Let_def)
  have t: "trace m6 = trace m @ (pre @ Clock # evs)"
    by (simp add: m6 m3)
  have fr: "config m6 = config m" "first_run m6 = first_run m"
    "ret_qemu_env m6 = ret_qemu_env m" "exit_requested m6 = exit_requested m"
    "length (cores m6) = length (cores m)" "memoryHierarchyPtr m6 = memoryHierarchyPtr m"
    "total_user_insns_committed m6 =
       fold (\<lambda>core total. total + get_insns_committed ops core) (cores m6) 0"
    using b by (simp_all add: m6 m3 m4_def emit_def)
  have v: "e1 \<longleftrightarrow> e \<or> voted (pre @ Clock # evs)" using d by (simp add: pre_def)
  have p: "filter is_core_prepare (pre @ Clock # evs) = []"
    using runcycle_events [OF c] by (simp add: pre_def)
  have u: "UpdateProgress \<in> set (pre @ Clock # evs) \<longleftrightarrow> sim_cycle m mod 1000 = 0"
    using runcycle_events [OF c] by (simp add: pre_def)
  from r t fr v p u have
    "run_cycle ops e m = check_stop e1 m6 \<and> trace m6 = trace m @ (pre @ Clock # evs) \<and>
     config m6 = config m \<and> first_run m6 = first_run m \<and>
     ret_qemu_env m6 = ret_qemu_env m \<and> exit_requested m6 = exit_requested m \<and>
     length (cores m6) = length (cores m) \<and>
     memoryHierarchyPtr m6 = memoryHierarchyPtr m \<and>
     total_user_insns_committed m6 =
       fold (\<lambda>core total. total + get_insns_committed ops core) (cores m6) 0 \<and>
     (e1 \<longleftrightarrow> e \<or> voted (pre @ Clock # evs)) \<and>
     filter is_core_prepare (pre @ Clock # evs) = [] \<and>
     (UpdateProgress \<in> set (pre @ Clock # evs) \<longleftrightarrow> sim_cycle m mod 1000 = 0)"
    unfolding m6_def by (intro conjI)
  then show ?thesis
    by - (rule exI [of _ e1], rule exI [of _ m6], rule exI [of _ "pre @ Clock # evs"])
qed


lemma run_worker_shape:
  "\<exists>evs cs. run_worker ops w m =
      m\<lparr>cores := cs, trace := trace m @ evs, exit_requested := exit_requested m \<or> voted evs\<rparr> \<and>
     length cs = length (cores m) \<and> list_all is_runcycle evs"
proof -
  obtain e1 m1 where f: "fold (run_core ops) (mycores w) (False, m) = (e1, m1)"
    by (cases "fold (run_core ops) (mycores w) (False, m)")
  from fold_run_core [OF f] obtain evs cs where
    a: "m1 = m\<lparr>cores := cs, trace := trace m @ evs\<rparr>" and
    b: "length cs = length (cores m)" and c: "list_all is_runcycle evs" and
    d: "e1 \<longleftrightarrow> voted evs"
    by auto
  have "run_worker ops w m =
      m\<lparr>cores := cs, trace := trace m @ evs, exit_requested := exit_requested m \<or> voted evs\<rparr>"
    using d by (simp add: run_worker_def f a)
  with b c show ?thesis by blast
qed

lemma fold_run_worker:
  "\<exists>evs cs. fold (run_worker ops) ws m =
      m\<lparr>cores := cs, trace := trace m @ evs, exit_requested := exit_requested m \<or> voted evs\<rparr> \<and>
     length cs = length (cores m) \<and> list_all is_runcycle evs"
proof (induction ws arbitrary: m)
  case Nil
  have "fold (run_worker ops) [] m =
      m\<lparr>cores := cores m, trace := trace m @ [], exit_requested := exit_requested m \<or> voted []\<rparr>"
    by simp
  then show ?case by (intro exI [of _ "[]"] exI [of _ "cores m"]) simp
next
  case (Cons w ws)
  from run_worker_shape [of ops w m] obtain evs1 cs1 where
    a: "run_worker ops w m =
      m\<lparr>cores := cs1, trace := trace m @ evs1, exit_requested := exit_requested m \<or> voted evs1\<rparr>"
    and b: "length cs1 = length (cores m)" and c: "list_all is_runcycle evs1"
    by blast
  define m1 where "m1 = run_worker ops w m"
  from Cons.IH [of m1] obtain evs2 cs2 where
    a2: "fold (run_worker ops) ws m1 =
      m1\<lparr>cores := cs2, trace := trace m1 @ evs2,
         exit_requested := exit_requested m1 \<or> voted evs2\<rparr>"
    and b2: "length cs2 = length (cores m1)" and c2: "list_all is_runcycle evs2"
    by blast
  have "fold (run_worker ops) (w # ws) m =
      m\<lparr>cores := cs2, trace := trace m @ (evs1 @ evs2),
        exit_requested := exit_requested m \<or> voted (evs1 @ evs2)\<rparr>"
    using a2 by (simp add: m1_def [symmetric]) (simp add: m1_def a)
  moreover have "length cs2 = length (cores m)" using b2 b by (simp add: m1_def a)
  moreover have "list_all is_runcycle (evs1 @ evs2)" using c c2 by simp
  ultimately show ?case by blast
qed

lemma run_threaded_cycle_return:
  "start_log_at_iteration (config m) \<noteq> 0 \<Longrightarrow> start_log_at_iteration (config m) \<le> iterations m \<Longrightarrow>
   run_threaded_cycle ops m = Return False (m\<lparr>config := (config m)\<lparr>threaded_simulation := False\<rparr>\<rparr>)"
  by (simp add: run_threaded_cycle_def)

lemma run_threaded_cycle_shape:
  assumes nr: "\<not> (start_log_at_iteration (config m) \<noteq> 0 \<and>
                 start_log_at_iteration (config m) \<le> iterations m)"
  shows "(\<exists>f. run_threaded_cycle ops m = Crash f) \<or>
         (\<exists>m1 evs. run_threaded_cycle ops m = check_stop (exit_requested m \<or> voted evs) m1 \<and>
           trace m1 = trace m @ evs \<and>
           config m1 = config m \<and> first_run m1 = first_run m \<and>
           ret_qemu_env m1 = ret_qemu_env m \<and> \<not> exit_requested m1 \<and>
           length (cores m1) = length (cores m) \<and>
           memoryHierarchyPtr m1 = memoryHierarchyPtr m \<and>
           total_user_insns_committed m1 =
             fold (\<lambda>core total. total + get_insns_committed ops core) (cores m1) 0 \<and>
           filter is_core_prepare evs = [] \<and>
           (UpdateProgress \<in> set evs \<longleftrightarrow> sim_cycle m mod 10000 = 0))"
proof -
  define m3 where "m3 = dump_stats (if sim_cycle m mod 10000 = 0 then emit UpdateProgress m else m)"
  define pre where "pre = (if sim_cycle m mod 10000 = 0 then [UpdateProgress] else []) @
     (if sim_cycle m = 0 \<and> time_stats_file m then [DumpHeader] else []) @
     (if sim_cycle m mod 10000 = 0 \<and> time_stats_file m then [DumpPeriodic] else [])"
  define m4 where "m4 = emit Clock m3"
  have m3: "trace m3 = trace m @ pre" "config m3 = config m" "first_run m3 = first_run m"
    "ret_qemu_env m3 = ret_qemu_env m" "exit_requested m3 = exit_requested m"
    "cores m3 = cores m" "memoryHierarchyPtr m3 = memoryHierarchyPtr m"
    by (simp_all add: m3_def pre_def dump_stats_def emit_def Let_def)
  have unf: "run_threaded_cycle ops m =
      (case memoryHierarchyPtr m3 of
         None \<Rightarrow> Crash NullDereference
       | Some h \<Rightarrow>
           if runcycle_barrier (emit Clock m3) = None \<or> exit_process_barrier (emit Clock m3) = None
           then Crash NullDereference
           else if \<not> list_all (\<lambda>w. list_all (\<lambda>i. i < length (cores (emit Clock m3))) (mycores w))
                         (pthreads (emit Clock m3))
           then Crash DanglingCore
           else check_stop (exit_requested (fold (run_worker ops) (pthreads (emit Clock m3)) (emit Clock m3)))
                  (collect_and_advance ops
                     ((fold (run_worker ops) (pthreads (emit Clock m3)) (emit Clock m3))
                        \<lparr>exit_requested := False\<rparr>)))"
    using nr unfolding run_threaded_cycle_def m3_def Let_def by (simp only: if_False)
  show ?thesis
  proof (cases "\<exists>f. run_threaded_cycle ops m = Crash f")
    case True
    then show ?thesis by blast
  next
    case False
    with unf have go: "run_threaded_cycle ops m =
        check_stop (exit_requested (fold (run_worker ops) (pthreads m4) m4))
          (collect_and_advance ops ((fold (run_worker ops) (pthreads m4) m4)\<lparr>exit_requested := False\<rparr>))"
      by (auto simp: m4_def split: option.splits if_splits)
    from fold_run_worker [of ops "pthreads m4" m4] obtain evs cs where
      a: "fold (run_worker ops) (pthreads m4) m4 =
        m4\<lparr>cores := cs, trace := trace m4 @ evs, exit_requested := exit_requested m4 \<or> voted evs\<rparr>"
      and b: "length cs = length (cores m4)" and c: "list_all is_runcycle evs"
      by blast
    define m6 where "m6 = collect_and_advance ops
       ((fold (run_worker ops) (pthreads m4) m4)\<lparr>exit_requested := False\<rparr>)"
    have m6: "m6 = m3\<lparr>cores := cs, trace := trace m3 @ Clock # evs, exit_requested := False,
        total_user_insns_committed := fold (\<lambda>core total. total + get_insns_committed ops core) cs 0,
        summary_cycles := summary_cycles m3 + 1, sim_cycle := sim_cycle m3 + 1,
        iterations := iterations m3 + 1\<rparr>"
      unfolding m6_def a by (simp add: m4_def collect_and_advance_def emit_def Let_def)
    have ex: "exit_requested (fold (run_worker ops) (pthreads m4) m4) \<longleftrightarrow>
        exit_requested m \<or> voted (pre @ Clock # evs)"
      unfolding a by (simp add: m4_def emit_def m3 pre_def)
    have r: "run_threaded_cycle ops m = check_stop (exit_requested m \<or> voted (pre @ Clock # evs)) m6"
      using go ex by (simp add: m6_def)
    have t: "trace m6 = trace m @ (pre @ Clock # evs)"
      by (simp add: m6 m3)
    have fr: "config m6 = config m" "first_run m6 = first_run m"
      "ret_qemu_env m6 = ret_qemu_env m" "\<not> exit_requested m6"
      "length (cores m6) = length (cores m)" "memoryHierarchyPtr m6 = memoryHierarchyPtr m"
      "total_user_insns_committed m6 =
         fold (\<lambda>core total. total + get_insns_committed ops core) (cores m6) 0"
      using b by (simp_all add: m6 m3 m4_def emit_def)
    have p: "filter is_core_prepare (pre @ Clock # evs) = []"
      using runcycle_events [OF c] by (simp add: pre_def)
    have u: "UpdateProgress \<in> set (pre @ Clock # evs) \<longleftrightarrow> sim_cycle m mod 10000 = 0"
      using runcycle_events [OF c] by (simp add: pre_def)
    from r t fr p u have
      "run_threaded_cycle ops m = check_stop (exit_requested m \<or> voted (pre @ Clock # evs)) m6 \<and>
       trace m6 = trace m @ (pre @ Clock # evs) \<and>
       config m6 = config m \<and> first_run m6 = first_run m \<and>
       ret_qemu_env m6 = ret_qemu_env m \<and> \<not> exit_requested m6 \<and>
       length (cores m6) = length (cores m) \<and>
       memoryHierarchyPtr m6 = memoryHierarchyPtr m \<and>
       total_user_insns_committed m6 =
         fold (\<lambda>core total. total + get_insns_committed ops core) (cores m6) 0 \<and>
       filter is_core_prepare (pre @ Clock # evs) = [] \<and>
       (UpdateProgress \<in> set (pre @ Clock # evs) \<longleftrightarrow> sim_cycle m mod 10000 = 0)"
      by (intro conjI)
    then have "\<exists>m1 evs. run_threaded_cycle ops m = check_stop (exit_requested m \<or> voted evs) m1 \<and>
           trace m1 = trace m @ evs \<and>
           config m1 = config m \<and> first_run m1 = first_run m \<and>
           ret_qemu_env m1 = ret_qemu_env m \<and> \<not> exit_requested m1 \<and>
           length (cores m1) = length (cores m) \<and>
           memoryHierarchyPtr m1 = memoryHierarchyPtr m \<and>
           total_user_insns_committed m1 =
             fold (\<lambda>core total. total + get_insns_committed ops core) (cores m1) 0 \<and>
           filter is_core_prepare evs = [] \<and>
           (UpdateProgress \<in> set evs \<longleftrightarrow> sim_cycle m mod 10000 = 0)"
      by - (rule exI [of _ m6], rule exI [of _ "pre @ Clock # evs"])
    then show ?thesis by (rule disjI2)
  qed
qed

subsection \<open>The stop check\<close>

lemma check_stop_cases:
  "check_stop x m =
     (if wait_all_finished (config m) \<or> stop_at_user_insns (config m) \<le> total_user_insns_committed m
      then Break True m
      else if x then Break True (m\<lparr>ret_qemu_env := Some (case ret_qemu_env m of None \<Rightarrow> 0 | Some c \<Rightarrow> c)\<rparr>)
      else Continue False m)"
  by (auto simp: check_stop_def split: option.splits)






subsection \<open>Evaluating the examples\<close>

lemmas ex_defs = ex_voting_def ex_waiting_def ex_deferred_def ex_thousand_def ex_first_def
  ex_threaded_def ex_two_def ex_built_def ex_generating_def ex_start_def coremodel_def ex_ops_def

lemmas run_defs = run_cycle_def run_threaded_cycle_def run_worker_def run_core_def
  dump_stats_def collect_and_advance_def check_stop_def epilogue_def emit_def Let_def
  new_events_def upt_rec




text \<open>The two cores commit 100 instructions each per pass and vote in the pass that
  takes them to 300: both loops go on after the first and the second pass and exit at
  the end of the third, in which the cores vote.\<close>

lemma ex_built_exits_after_three_passes:
  "(case run_loop (Suc (Suc (Suc 0))) ex_ops False ex_built of
      Some (Inr (x, m')) \<Rightarrow> x \<and> iterations m' = 3 \<and> total_user_insns_committed m' = 600
    | _ \<Rightarrow> False) \<and>
   run_loop (Suc (Suc 0)) ex_ops False ex_built = None \<and>
   (case run_threaded (Suc (Suc (Suc 0))) ex_ops ex_threaded of
      Some (Inr (x, m')) \<Rightarrow> x \<and> iterations m' = 3 \<and> total_user_insns_committed m' = 600
    | _ \<Rightarrow> False) \<and>
   run_threaded (Suc (Suc 0)) ex_ops ex_threaded = None"
  by (simp add: ex_defs run_defs)


text \<open>
  C8 on the code: at \<open>sim_cycle = 1000\<close>, a multiple of 1000, a pass of the threaded
  loop makes no call of \<^verbatim>\<open>update_progress\<close> (its stride is 10000, line 291), while a
  pass of the sequential loop on the same machine does (line 221).
\<close>

theorem progress_stride_threaded:
  "(case run_threaded_cycle ex_ops ex_thousand of
      Continue x m' \<Rightarrow> new_events ex_thousand m' = [Clock, RunCycle 0 False, RunCycle 1 False]
    | _ \<Rightarrow> False) \<and>
   sim_cycle ex_thousand mod 1000 = 0 \<and>
   (case run_cycle ex_ops False (ex_thousand\<lparr>config := (config ex_thousand)\<lparr>threaded_simulation := False\<rparr>\<rparr>) of
      Continue x m' \<Rightarrow> new_events ex_thousand m' =
         [UpdateProgress, Clock, RunCycle 0 False, RunCycle 1 False]
    | _ \<Rightarrow> False)"
  by (simp add: ex_defs run_defs)

subsection \<open>The fallback guest context\<close>

lemma run_loop_ret:
  "run_loop n ops e m = Some (Inr (x, m')) \<Longrightarrow>
   ret_qemu_env m' =
     (if wait_all_finished (config m) \<or>
         stop_at_user_insns (config m) \<le> total_user_insns_committed m'
      then ret_qemu_env m
      else Some (case ret_qemu_env m of None \<Rightarrow> 0 | Some c \<Rightarrow> c))"
proof (induction n arbitrary: e m)
  case 0
  then show ?case by simp
next
  case (Suc n)
  show ?case
  proof (cases "memoryHierarchyPtr m = None")
    case True
    with Suc.prems show ?thesis by (simp add: run_cycle_crash)
  next
    case False
    from run_cycle_shape [OF False, of ops e] obtain e1 m1 where
      r: "run_cycle ops e m = check_stop e1 m1" and c: "config m1 = config m" and
      q: "ret_qemu_env m1 = ret_qemu_env m"
      by blast
    show ?thesis
    proof (cases "check_stop e1 m1")
      case (Continue e2 m2)
      then have m2: "m2 = m1"
        by (simp add: check_stop_cases split: if_splits)
      from Suc.prems r Continue have "run_loop n ops e2 m2 = Some (Inr (x, m'))" by simp
      from Suc.IH [OF this] show ?thesis by (simp add: m2 c q)
    next
      case (Break e2 m2)
      with Suc.prems r have "m' = epilogue m2" by simp
      with Break c q show ?thesis
        by (auto simp: check_stop_cases epilogue_def split: if_splits)
    next
      case (Return b m2)
      then show ?thesis by (simp add: check_stop_cases split: if_splits)
    next
      case (Crash f)
      then show ?thesis by (simp add: check_stop_cases split: if_splits)
    qed
  qed
qed

lemma run_threaded_ret:
  "run_threaded n ops m = Some (Inr (x, m')) \<Longrightarrow>
   ret_qemu_env m' =
     (if \<not> x \<or> wait_all_finished (config m) \<or>
         stop_at_user_insns (config m) \<le> total_user_insns_committed m'
      then ret_qemu_env m
      else Some (case ret_qemu_env m of None \<Rightarrow> 0 | Some c \<Rightarrow> c))"
proof (induction n arbitrary: m)
  case 0
  then show ?case by simp
next
  case (Suc n)
  show ?case
  proof (cases "start_log_at_iteration (config m) \<noteq> 0 \<and>
                 start_log_at_iteration (config m) \<le> iterations m")
    case True
    with Suc.prems show ?thesis by (auto simp: run_threaded_cycle_return)
  next
    case False
    from run_threaded_cycle_shape [OF False, of ops] show ?thesis
    proof (elim disjE exE conjE)
      fix f assume "run_threaded_cycle ops m = Crash f"
      with Suc.prems show ?thesis by simp
    next
      fix m1 evs
      assume r: "run_threaded_cycle ops m = check_stop (exit_requested m \<or> voted evs) m1"
        and c: "config m1 = config m" and q: "ret_qemu_env m1 = ret_qemu_env m"
      show ?thesis
      proof (cases "check_stop (exit_requested m \<or> voted evs) m1")
        case (Continue e2 m2)
        then have m2: "m2 = m1"
          by (simp add: check_stop_cases split: if_splits)
        from Suc.prems r Continue have "run_threaded n ops m2 = Some (Inr (x, m'))" by simp
        from Suc.IH [OF this] show ?thesis by (simp add: m2 c q)
      next
        case (Break e2 m2)
        with Suc.prems r have "m' = epilogue m2" "x = e2" by simp_all
        with Break c q show ?thesis
          by (auto simp: check_stop_cases epilogue_def split: if_splits)
      next
        case (Return b m2)
        then show ?thesis by (simp add: check_stop_cases split: if_splits)
      next
        case (Crash f)
        then show ?thesis by (simp add: check_stop_cases split: if_splits)
      qed
    qed
  qed
qed

text \<open>
  C4, as the code has it: when a loop exits because a core voted to terminate, with
  \<open>wait_all_finished\<close> clear and the instruction budget not reached, the fallback
  reference \<open>ret_qemu_env\<close> is bound when the loop returns (to context 0 when it was
  unbound, and as it was otherwise); when the loop exits because \<open>wait_all_finished\<close>
  is set or the budget is reached, and when the threaded loop returns false at the
  logging threshold, the reference is left as it was.
\<close>

theorem fallback_context_bound_on_vote:
  "(run_loop n ops False m = Some (Inr (x, m')) \<longrightarrow>
      ret_qemu_env m' =
        (if wait_all_finished (config m) \<or>
            stop_at_user_insns (config m) \<le> total_user_insns_committed m'
         then ret_qemu_env m
         else Some (case ret_qemu_env m of None \<Rightarrow> 0 | Some c \<Rightarrow> c))) \<and>
   (run_threaded n ops m = Some (Inr (x, m')) \<longrightarrow>
      ret_qemu_env m' =
        (if \<not> x \<or> wait_all_finished (config m) \<or>
            stop_at_user_insns (config m) \<le> total_user_insns_committed m'
         then ret_qemu_env m
         else Some (case ret_qemu_env m of None \<Rightarrow> 0 | Some c \<Rightarrow> c)))"
  using run_loop_ret [of n ops False m x m'] run_threaded_ret [of n ops m x m'] by blast

lemma ex_voting_run:
  "\<exists>m'. run_loop (Suc 0) ex_ops False ex_voting = Some (Inr (True, m')) \<and>
        total_user_insns_committed m' = 400"
  by (simp add: ex_defs run_defs)

text \<open>C4, the amended claim at work: core 0 votes in the first pass, the limits do not
  apply, and the unbound reference is bound to context 0.\<close>

theorem fallback_context_bound_on_vote_witness:
  "(case run_loop (Suc 0) ex_ops False ex_voting of
      Some (Inr (x, m')) \<Rightarrow> ret_qemu_env m' = Some 0
    | _ \<Rightarrow> False) \<and>
   ret_qemu_env ex_voting = None"
proof -
  from ex_voting_run obtain m' where
    r: "run_loop (Suc 0) ex_ops False ex_voting = Some (Inr (True, m'))" and
    t: "total_user_insns_committed m' = 400"
    by blast
  have c: "\<not> wait_all_finished (config ex_voting)" "stop_at_user_insns (config ex_voting) = 1000"
    "ret_qemu_env ex_voting = None"
    by (simp_all add: ex_defs)
  from fallback_context_bound_on_vote [of "Suc 0" ex_ops ex_voting True m'] r
  have "ret_qemu_env m' = Some 0" by (simp add: c t)
  with r c show ?thesis by simp
qed

text \<open>
  C4 as stated fails: with \<open>wait_all_finished\<close> set the loop exits after one pass,
  returning true, and the fallback reference, unbound before, is still unbound.
\<close>

theorem fallback_context_counterexample:
  "(case run_loop (Suc 0) ex_ops False ex_waiting of
      Some (Inr (x, m')) \<Rightarrow> x \<and> ret_qemu_env m' = None
    | _ \<Rightarrow> False) \<and>
   ret_qemu_env ex_waiting = None"
  by (simp add: ex_defs run_defs)

subsection \<open>Leaving threaded mode\<close>

text \<open>
  C7: when a pass of the threaded loop begins with \<open>start_log_at_iteration\<close> nonzero and
  reached by \<open>iterations\<close>, \<^verbatim>\<open>run_threaded\<close> returns false at once: the state it
  returns is the state of the loop head with the flag \<open>threaded_simulation\<close> cleared
  and nothing else changed (no event, no counter), and a later \<^verbatim>\<open>run\<close> on that state
  takes the sequential loop.
\<close>

theorem threaded_degrades_at_logging_threshold:
  "start_log_at_iteration (config m) \<noteq> 0 \<and> start_log_at_iteration (config m) \<le> iterations m \<longrightarrow>
   run_threaded (Suc n) ops m =
     Some (Inr (False, m\<lparr>config := (config m)\<lparr>threaded_simulation := False\<rparr>\<rparr>)) \<and>
   run k ops (m\<lparr>config := (config m)\<lparr>threaded_simulation := False\<rparr>\<rparr>) =
     run_loop k ops False (run_prologue ops (m\<lparr>config := (config m)\<lparr>threaded_simulation := False\<rparr>\<rparr>))"
  by (simp add: run_threaded_cycle_return run_def Let_def run_prologue_config)

text \<open>C7 at work: threaded mode with the threshold 10, at iteration 10.\<close>

theorem threaded_degrades_at_logging_threshold_witness:
  "start_log_at_iteration (config ex_deferred) = 10 \<and> iterations ex_deferred = 10 \<and>
   run_threaded (Suc 0) ex_ops ex_deferred =
     Some (Inr (False, ex_deferred\<lparr>config := (config ex_deferred)\<lparr>threaded_simulation := False\<rparr>\<rparr>)) \<and>
   trace (ex_deferred\<lparr>config := (config ex_deferred)\<lparr>threaded_simulation := False\<rparr>\<rparr>) =
     trace ex_deferred"
  using threaded_degrades_at_logging_threshold [of ex_deferred 0 ex_ops 0]
  by (simp add: ex_defs)

subsection \<open>Preparing the cores\<close>

lemma prepare_cores_trace:
  "trace (fold (prepare_core ops) js m) =
     trace m @ concat (map (\<lambda>i. if first_run m then [CoreReset i, CheckCtxChanges i]
                                  else [CheckCtxChanges i]) js) \<and>
   first_run (fold (prepare_core ops) js m) = first_run m"
proof (induction js arbitrary: m)
  case Nil
  show ?case by simp
next
  case (Cons j js)
  have "trace (prepare_core ops j m) =
      trace m @ (if first_run m then [CoreReset j, CheckCtxChanges j] else [CheckCtxChanges j])"
    "first_run (prepare_core ops j m) = first_run m"
    by (simp_all add: prepare_core_def emit_def Let_def)
  with Cons.IH [of "prepare_core ops j m"] show ?case by simp
qed

lemma prepare_events_filter:
  "filter is_core_prepare
     (concat (map (\<lambda>i. if b then [CoreReset i, CheckCtxChanges i] else [CheckCtxChanges i]) js)) =
   concat (map (\<lambda>i. if b then [CoreReset i, CheckCtxChanges i] else [CheckCtxChanges i]) js)"
  by (induction js) simp_all

lemma run_prologue_trace:
  "trace (run_prologue ops m) =
     trace m @ concat (map (\<lambda>i. if first_run m then [CoreReset i, CheckCtxChanges i]
                                  else [CheckCtxChanges i]) [0 ..< length (cores m)])"
  "\<not> first_run (run_prologue ops m)"
  by (simp_all add: run_prologue_def Let_def prepare_cores_trace)

lemma run_loop_trace:
  "run_loop n ops e m = Some (Inr (x, m')) \<Longrightarrow>
   \<exists>evs. trace m' = trace m @ evs \<and> filter is_core_prepare evs = [] \<and>
         first_run m' = first_run m"
proof (induction n arbitrary: e m)
  case 0
  then show ?case by simp
next
  case (Suc n)
  show ?case
  proof (cases "memoryHierarchyPtr m = None")
    case True
    with Suc.prems show ?thesis by (simp add: run_cycle_crash)
  next
    case False
    from run_cycle_shape [OF False, of ops e] obtain e1 m1 evs where
      r: "run_cycle ops e m = check_stop e1 m1" and t: "trace m1 = trace m @ evs" and
      f: "first_run m1 = first_run m" and p: "filter is_core_prepare evs = []"
      by blast
    show ?thesis
    proof (cases "check_stop e1 m1")
      case (Continue e2 m2)
      then have m2: "m2 = m1"
        by (simp add: check_stop_cases split: if_splits)
      from Suc.prems r Continue have "run_loop n ops e2 m2 = Some (Inr (x, m'))" by simp
      from Suc.IH [OF this] obtain evs2 where
        "trace m' = trace m2 @ evs2" "filter is_core_prepare evs2 = []"
        "first_run m' = first_run m2"
        by blast
      with m2 t f p have "trace m' = trace m @ (evs @ evs2) \<and>
          filter is_core_prepare (evs @ evs2) = [] \<and> first_run m' = first_run m"
        by simp
      then show ?thesis by (rule exI)
    next
      case (Break e2 m2)
      with Suc.prems r have "m' = epilogue m2" by simp
      with Break t f p have "trace m' = trace m @ evs \<and>
          filter is_core_prepare evs = [] \<and> first_run m' = first_run m"
        by (auto simp: check_stop_cases epilogue_def split: if_splits)
      then show ?thesis by (rule exI)
    next
      case (Return b m2)
      then show ?thesis by (simp add: check_stop_cases split: if_splits)
    next
      case (Crash f)
      then show ?thesis by (simp add: check_stop_cases split: if_splits)
    qed
  qed
qed

lemma run_threaded_trace:
  "run_threaded n ops m = Some (Inr (x, m')) \<Longrightarrow>
   \<exists>evs. trace m' = trace m @ evs \<and> filter is_core_prepare evs = [] \<and>
         first_run m' = first_run m"
proof (induction n arbitrary: m)
  case 0
  then show ?case by simp
next
  case (Suc n)
  show ?case
  proof (cases "start_log_at_iteration (config m) \<noteq> 0 \<and>
                 start_log_at_iteration (config m) \<le> iterations m")
    case True
    with Suc.prems have "trace m' = trace m @ [] \<and> filter is_core_prepare [] = [] \<and>
        first_run m' = first_run m"
      by (auto simp: run_threaded_cycle_return)
    then show ?thesis by (rule exI)
  next
    case False
    from run_threaded_cycle_shape [OF False, of ops] show ?thesis
    proof (elim disjE exE conjE)
      fix f assume "run_threaded_cycle ops m = Crash f"
      with Suc.prems show ?thesis by simp
    next
      fix m1 evs
      assume r: "run_threaded_cycle ops m = check_stop (exit_requested m \<or> voted evs) m1"
        and t: "trace m1 = trace m @ evs" and f: "first_run m1 = first_run m"
        and p: "filter is_core_prepare evs = []"
      show ?thesis
      proof (cases "check_stop (exit_requested m \<or> voted evs) m1")
        case (Continue e2 m2)
        then have m2: "m2 = m1"
          by (simp add: check_stop_cases split: if_splits)
        from Suc.prems r Continue have "run_threaded n ops m2 = Some (Inr (x, m'))" by simp
        from Suc.IH [OF this] obtain evs2 where
          "trace m' = trace m2 @ evs2" "filter is_core_prepare evs2 = []"
          "first_run m' = first_run m2"
          by blast
        with m2 t f p have "trace m' = trace m @ (evs @ evs2) \<and>
            filter is_core_prepare (evs @ evs2) = [] \<and> first_run m' = first_run m"
          by simp
        then show ?thesis by (rule exI)
      next
        case (Break e2 m2)
        with Suc.prems r have "m' = epilogue m2" by simp
        with Break t f p have "trace m' = trace m @ evs \<and>
            filter is_core_prepare evs = [] \<and> first_run m' = first_run m"
          by (auto simp: check_stop_cases epilogue_def split: if_splits)
        then show ?thesis by (rule exI)
      next
        case (Return b m2)
        then show ?thesis by (simp add: check_stop_cases split: if_splits)
      next
        case (Crash f)
        then show ?thesis by (simp add: check_stop_cases split: if_splits)
      qed
    qed
  qed
qed

text \<open>
  C10: before it chooses a loop, \<^verbatim>\<open>run\<close> calls, for every core in order, \<^verbatim>\<open>reset\<close>
  when \<open>first_run\<close> is set and then \<^verbatim>\<open>check_ctx_changes\<close>; these are all the calls of
  the two functions that an invocation of \<^verbatim>\<open>run\<close> makes, and a \<^verbatim>\<open>run\<close> that returns
  leaves \<open>first_run\<close> clear. So the first invocation resets every core, a later one
  resets none, and every invocation checks every core for context changes.
\<close>

theorem reset_on_first_run_only:
  "new_events m (run_prologue ops m) =
     concat (map (\<lambda>i. if first_run m then [CoreReset i, CheckCtxChanges i]
                       else [CheckCtxChanges i]) [0 ..< length (cores m)]) \<and>
   (run n ops m = Some (Inr (x, m')) \<longrightarrow>
      \<not> first_run m' \<and>
      filter is_core_prepare (new_events m m') =
        concat (map (\<lambda>i. if first_run m then [CoreReset i, CheckCtxChanges i]
                          else [CheckCtxChanges i]) [0 ..< length (cores m)]))"
proof (intro conjI impI)
  let ?pre = "concat (map (\<lambda>i. if first_run m then [CoreReset i, CheckCtxChanges i]
                       else [CheckCtxChanges i]) [0 ..< length (cores m)])"
  show "new_events m (run_prologue ops m) = ?pre"
    by (rule new_events_append) (rule run_prologue_trace)
  assume r: "run n ops m = Some (Inr (x, m'))"
  have "\<exists>evs. trace m' = trace (run_prologue ops m) @ evs \<and> filter is_core_prepare evs = [] \<and>
          first_run m' = first_run (run_prologue ops m)"
  proof (cases "threaded_simulation (config (run_prologue ops m))")
    case True
    with r have "run_threaded n ops (run_prologue ops m) = Some (Inr (x, m'))"
      by (simp add: run_def Let_def)
    then show ?thesis by (rule run_threaded_trace)
  next
    case False
    with r have "run_loop n ops False (run_prologue ops m) = Some (Inr (x, m'))"
      by (simp add: run_def Let_def)
    then show ?thesis by (rule run_loop_trace)
  qed
  then obtain evs where t: "trace m' = trace (run_prologue ops m) @ evs" and
    p: "filter is_core_prepare evs = []" and f: "first_run m' = first_run (run_prologue ops m)"
    by blast
  from f show "\<not> first_run m'" by (simp add: run_prologue_trace)
  from t have "trace m' = trace m @ (?pre @ evs)" by (simp add: run_prologue_trace)
  then have "new_events m m' = ?pre @ evs" by (rule new_events_append)
  with p show "filter is_core_prepare (new_events m m') = ?pre"
    by (simp add: prepare_events_filter)
qed

lemma ex_first_run:
  "\<exists>m'. run (Suc 0) ex_ops ex_first = Some (Inr (True, m'))"
  by (simp add: run_def run_prologue_def prepare_core_def ex_defs run_defs)

lemma ex_waiting_run:
  "\<exists>m'. run (Suc 0) ex_ops ex_waiting = Some (Inr (True, m'))"
  by (simp add: run_def run_prologue_def prepare_core_def ex_defs run_defs)

text \<open>C10 at work: a first run on two cores, and a run with \<open>first_run\<close> clear.\<close>

theorem reset_on_first_run_only_witness:
  "(case run (Suc 0) ex_ops ex_first of
      Some (Inr (x, m')) \<Rightarrow>
        \<not> first_run m' \<and>
        filter is_core_prepare (new_events ex_first m') =
          [CoreReset 0, CheckCtxChanges 0, CoreReset 1, CheckCtxChanges 1]
    | _ \<Rightarrow> False) \<and>
   (case run (Suc 0) ex_ops ex_waiting of
      Some (Inr (x, m')) \<Rightarrow>
        filter is_core_prepare (new_events ex_waiting m') =
          [CheckCtxChanges 0, CheckCtxChanges 1]
    | _ \<Rightarrow> False)"
proof -
  from ex_first_run obtain m1 where r1: "run (Suc 0) ex_ops ex_first = Some (Inr (True, m1))"
    by blast
  from ex_waiting_run obtain m2 where r2: "run (Suc 0) ex_ops ex_waiting = Some (Inr (True, m2))"
    by blast
  have c: "first_run ex_first" "length (cores ex_first) = 2"
    "\<not> first_run ex_waiting" "length (cores ex_waiting) = 2"
    by (simp_all add: ex_defs)
  from reset_on_first_run_only [of ex_first ex_ops "Suc 0" True m1] r1 c
  have a: "\<not> first_run m1"
    "filter is_core_prepare (new_events ex_first m1) =
       [CoreReset 0, CheckCtxChanges 0, CoreReset 1, CheckCtxChanges 1]"
    by (simp_all add: upt_rec)
  from reset_on_first_run_only [of ex_waiting ex_ops "Suc 0" True m2] r2 c
  have b: "filter is_core_prepare (new_events ex_waiting m2) =
       [CheckCtxChanges 0, CheckCtxChanges 1]"
    by (simp add: upt_rec)
  from a b show ?thesis by (simp add: r1 r2)
qed

end
